theory Spec2Isabelle
  imports Complex_Main "HOL-Library.Word" "HOL-Library.Monad_Syntax"
begin

section \<open>Machine integers and byte buffers\<close>

text \<open>
  Go's \<^verbatim>\<open>int\<close> is a 64-bit two's complement integer on the 64-bit targets. Index
  arithmetic is carried out on \<open>int\<close> with the wrap-around written out: \<open>wrap64 x\<close> is
  the value a 64-bit register holds after computing \<open>x\<close>.
\<close>

definition wrap64 :: "int \<Rightarrow> int" where
  "wrap64 x = (x + 9223372036854775808) mod 18446744073709551616 - 9223372036854775808"

type_synonym byte = "8 word"

text \<open>
  The caller's buffer \<^verbatim>\<open>p []byte\<close> during the loop of \<^verbatim>\<open>Read\<close>: its contents, and the
  list of the indices stored to so far (a trace of the writes, kept to state which
  positions the filter touches).
\<close>

type_synonym mem = "byte list \<times> nat list"

text \<open>
  \<^verbatim>\<open>p[i] = v\<close>. Go checks the index against \<^verbatim>\<open>len(p)\<close> and panics when it is out of
  range; the panic is \<open>None\<close>.
\<close>

definition store :: "mem \<Rightarrow> int \<Rightarrow> byte \<Rightarrow> mem option" where
  "store m i v =
     (if 0 \<le> i \<and> i < int (length (fst m))
      then Some ((fst m)[nat i := v], snd m @ [nat i])
      else None)"

section \<open>The channel isolation filter\<close>

text \<open>
  \<^verbatim>\<open>type SingleChannelStream struct { io.ReadSeeker; isLeft bool }\<close>.
  The embedded stream is kept as its state \<open>'src\<close>; its \<^verbatim>\<open>Read\<close> method is a parameter
  of the filter's \<open>Read\<close> below.
\<close>

record 'src SingleChannelStream =
  ReadSeeker :: 'src
  isLeft :: bool

definition NewSingleChannelStream :: "'src \<Rightarrow> bool \<Rightarrow> 'src SingleChannelStream" where
  "NewSingleChannelStream src isLeft' = \<lparr>ReadSeeker = src, isLeft = isLeft'\<rparr>"

text \<open>
  The body of the loop for the frame that starts at \<open>i\<close>: four stores of zero, to
  \<^verbatim>\<open>p[i+4] .. p[i+7]\<close> when \<^verbatim>\<open>isLeft\<close> and to \<^verbatim>\<open>p[i] .. p[i+3]\<close> otherwise, in the
  order of the source. The first store that is out of range panics.
\<close>

definition zero_frame :: "bool \<Rightarrow> int \<Rightarrow> mem \<Rightarrow> mem option" where
  "zero_frame isLeft' i m =
     (if isLeft' then
        do {
          m \<leftarrow> store m (wrap64 (i + 4)) 0;
          m \<leftarrow> store m (wrap64 (i + 5)) 0;
          m \<leftarrow> store m (wrap64 (i + 6)) 0;
          store m (wrap64 (i + 7)) 0
        }
      else
        do {
          m \<leftarrow> store m i 0;
          m \<leftarrow> store m (wrap64 (i + 1)) 0;
          m \<leftarrow> store m (wrap64 (i + 2)) 0;
          store m (wrap64 (i + 3)) 0
        })"

text \<open>
  \<^verbatim>\<open>for i := 0; i+8 <= n; i += 8 { ... }\<close>, entered with the loop variable at \<open>i\<close>.
\<close>

function zero_loop :: "bool \<Rightarrow> int \<Rightarrow> int \<Rightarrow> mem \<Rightarrow> mem option" where
  "zero_loop isLeft' n i m =
     (if wrap64 (i + 8) \<le> n then
        (case zero_frame isLeft' i m of
           None \<Rightarrow> None
         | Some m' \<Rightarrow> zero_loop isLeft' n (wrap64 (i + 8)) m')
      else Some m)"
  by pat_completeness auto

text \<open>
  The loop ends: the quantity below decreases with every frame that is zeroed without
  a panic, also when the loop variable wraps around.
\<close>

definition loop_measure :: "int \<Rightarrow> nat" where
  "loop_measure i =
     (if i < - 9223372036854775808 \<or> 9223372036854775808 \<le> i then 18446744073709551626
      else if i < - 4 then 0
      else nat (9223372036854775812 - i))"

text \<open>
  \<^verbatim>\<open>func (s *SingleChannelStream) Read(p []byte) (int, error)\<close>.
  \<open>rd\<close> is the \<^verbatim>\<open>Read\<close> method of the embedded stream: from the stream's state and the
  caller's buffer it gives the new state, the buffer as the stream leaves it, the count
  \<open>n\<close> and the error (\<open>None\<close> is \<^verbatim>\<open>nil\<close>). The filter's result is the stream with
  its new state, the buffer, and the pair the method returns; \<open>None\<close> is an index
  panic inside the loop.
\<close>

definition Read ::
  "('src \<Rightarrow> byte list \<Rightarrow> 'src \<times> byte list \<times> int \<times> 'e option) \<Rightarrow>
   'src SingleChannelStream \<Rightarrow> byte list \<Rightarrow>
   ('src SingleChannelStream \<times> byte list \<times> int \<times> 'e option) option" where
  "Read rd s p =
     (case rd (ReadSeeker s) p of
        (src', q, n, err) \<Rightarrow>
          (case zero_loop (isLeft s) n 0 (q, []) of
             None \<Rightarrow> None
           | Some m \<Rightarrow> Some (s\<lparr>ReadSeeker := src'\<rparr>, fst m, n, err)))"

text \<open>
  The positions a run of the loop from \<open>i\<close> is to zero: those of the unwanted channel
  in the frames that lie wholly below \<open>n\<close>.
\<close>

definition zeroed_at :: "bool \<Rightarrow> int \<Rightarrow> int \<Rightarrow> nat \<Rightarrow> bool" where
  "zeroed_at isLeft' n i k \<longleftrightarrow>
     i \<le> int k \<and> i + (int k - i) div 8 * 8 + 8 \<le> n \<and>
     (if isLeft' then 4 \<le> (int k - i) mod 8 else (int k - i) mod 8 < 4)"

text \<open>
  A stand-in for an underlying stream in the examples: its \<^verbatim>\<open>Read\<close> leaves the bytes
  \<open>q\<close> in the buffer and returns \<open>(n, err)\<close>.
\<close>

definition fixed_reader ::
  "byte list \<Rightarrow> int \<Rightarrow> 'e option \<Rightarrow> 'src \<Rightarrow> byte list \<Rightarrow> 'src \<times> byte list \<times> int \<times> 'e option" where
  "fixed_reader q n err src p = (src, q, n, err)"

definition sample16 :: "byte list" where
  "sample16 = [1, 2, 3, 4, 5, 6, 7, 8, 9, 10, 11, 12, 13, 14, 15, 16]"

section \<open>The panning controller\<close>

subsection \<open>Floating point\<close>

text \<open>
  \<^verbatim>\<open>float64\<close> values are the reals they denote. Each arithmetic operation of the source
  is the exact operation followed by the rounding \<open>rnd\<close> to the nearest \<^verbatim>\<open>float64\<close>, and
  \<open>cosf\<close> is \<^verbatim>\<open>math.Cos\<close>; both are parameters of the model. What is used of the
  rounding is that it is monotone, leaves a \<^verbatim>\<open>float64\<close> as it is, commutes with
  negation, and is exact on the integers up to \<open>2^53\<close>. Each operation is rounded
  on its own, in the order the source writes them, as on amd64, where no product is
  fused into the sum that follows it. No operation of the source overflows or meets
  a NaN.
\<close>

definition float64_rounding :: "(real \<Rightarrow> real) \<Rightarrow> bool" where
  "float64_rounding rnd \<longleftrightarrow>
     mono rnd \<and> (\<forall>x. rnd (rnd x) = rnd x) \<and> (\<forall>x. rnd (- x) = - rnd x) \<and>
     (\<forall>k :: int. \<bar>k\<bar> \<le> 9007199254740992 \<longrightarrow> rnd (of_int k) = of_int k)"

text \<open>
  The accuracy of the rounding, as round-to-nearest has it: on a value of magnitude up
  to \<open>2^60\<close> the error is at most \<open>2^-53\<close> times the larger of that magnitude and 1.
\<close>

definition float64_accurate :: "(real \<Rightarrow> real) \<Rightarrow> bool" where
  "float64_accurate rnd \<longleftrightarrow>
     (\<forall>x. \<bar>x\<bar> \<le> 1152921504606846976 \<longrightarrow> \<bar>rnd x - x\<bar> \<le> max 1 \<bar>x\<bar> / 9007199254740992)"

definition screenWidth :: int where
  "screenWidth = 640"

definition sampleRate :: nat where
  "sampleRate = 48000"

text \<open>\<^verbatim>\<open>func lerp(a, b, t float64) float64 { return a*(1-t) + b*t }\<close>\<close>

definition lerp :: "(real \<Rightarrow> real) \<Rightarrow> real \<Rightarrow> real \<Rightarrow> real \<Rightarrow> real" where
  "lerp rnd a b t = rnd (rnd (a * rnd (1 - t)) + rnd (b * t))"

text \<open>
  \<^verbatim>\<open>r := float64(g.count) * ((1.0 / 60.0) * 2 * math.Pi) * 0.1\<close>. The parenthesised
  factor is a constant expression, evaluated exactly and rounded once; so is \<^verbatim>\<open>0.1\<close>.
\<close>

definition phase :: "(real \<Rightarrow> real) \<Rightarrow> 64 word \<Rightarrow> real" where
  "phase rnd c = rnd (rnd (rnd (of_int (sint c)) * rnd ((1 / 60) * 2 * pi)) * rnd (1 / 10))"

text \<open>
  \<^verbatim>\<open>(float64(screenWidth) / 2) + math.Cos(r)*(float64(screenWidth)/2)\<close>; the constant
  \<^verbatim>\<open>float64(screenWidth) / 2\<close> is 320.
\<close>

definition xpos_of :: "(real \<Rightarrow> real) \<Rightarrow> (real \<Rightarrow> real) \<Rightarrow> real \<Rightarrow> real" where
  "xpos_of rnd cosf r =
     rnd (of_int screenWidth / 2 + rnd (cosf r * (of_int screenWidth / 2)))"

text \<open>\<^verbatim>\<open>lerp(-1, 1, g.xpos/float64(screenWidth))\<close>\<close>

definition panning_of :: "(real \<Rightarrow> real) \<Rightarrow> real \<Rightarrow> real" where
  "panning_of rnd x = lerp rnd (- 1) 1 (rnd (x / of_int screenWidth))"

text \<open>
  \<^verbatim>\<open>math.Min(g.panning*-1+1, 1)\<close> and \<^verbatim>\<open>math.Min(g.panning+1, 1)\<close>.
\<close>

definition leftVolume :: "(real \<Rightarrow> real) \<Rightarrow> real \<Rightarrow> real" where
  "leftVolume rnd pan = min (rnd (rnd (pan * - 1) + 1)) 1"

definition rightVolume :: "(real \<Rightarrow> real) \<Rightarrow> real \<Rightarrow> real" where
  "rightVolume rnd pan = min (rnd (pan + 1)) 1"

subsection \<open>The audio library\<close>

text \<open>
  The audio context and the playback handles belong to the audio library. Of a
  context the model keeps its sample rate and the number of players it has handed
  out; of a player the stream it plays, its volume and whether it was started.
\<close>

record Context =
  rate :: nat
  players_made :: nat

record 'src Player =
  source :: "'src SingleChannelStream"
  volume :: real
  playing :: bool

text \<open>
  The outcomes of the library calls that can fail: decoding the embedded asset
  (\<^verbatim>\<open>vorbis.DecodeF32\<close>, the same bytes at both calls) and making a player
  (\<^verbatim>\<open>NewPlayerF32\<close>); and the looping wrapper \<^verbatim>\<open>audio.NewInfiniteLoop(s, s.Length())\<close>.
\<close>

record ('src, 'e) Library =
  DecodeF32 :: "'e + 'src"
  NewInfiniteLoop :: "'src \<Rightarrow> 'src"
  NewPlayerF32_err :: "Context \<Rightarrow> 'e option"

definition NewContext :: "nat \<Rightarrow> Context" where
  "NewContext sr = \<lparr>rate = sr, players_made = 0\<rparr>"

definition NewPlayerF32 ::
  "('src, 'e) Library \<Rightarrow> Context \<Rightarrow> 'src SingleChannelStream \<Rightarrow> 'e + Context \<times> 'src Player" where
  "NewPlayerF32 lib ctx s =
     (case NewPlayerF32_err lib ctx of
        Some err \<Rightarrow> Inl err
      | None \<Rightarrow>
          Inr (ctx\<lparr>players_made := players_made ctx + 1\<rparr>,
               \<lparr>source = s, volume = 1, playing = False\<rparr>))"

definition Play :: "'src Player \<Rightarrow> 'src Player" where
  "Play pl = pl\<lparr>playing := True\<rparr>"

definition SetVolume :: "'src Player \<Rightarrow> real \<Rightarrow> 'src Player" where
  "SetVolume pl v = pl\<lparr>volume := v\<rparr>"

subsection \<open>The game\<close>

text \<open>
  \<^verbatim>\<open>type Game struct\<close>. A nil pointer is \<open>None\<close>. \<open>NewGame\<close> is \<^verbatim>\<open>&Game{}\<close>.
\<close>

record 'src Game =
  playerLeft :: "'src Player option"
  playerRight :: "'src Player option"
  panning :: real
  count :: "64 word"
  xpos :: real
  audioContext :: "Context option"

definition NewGame :: "'src Game" where
  "NewGame = \<lparr>playerLeft = None, playerRight = None, panning = 0, count = 0, xpos = 0,
               audioContext = None\<rparr>"

text \<open>
  The ways a call does not return: \<^verbatim>\<open>log.Fatal(err)\<close> ends the process, and a method
  call through a nil player panics.
\<close>

datatype 'e abort = Fatal 'e | NilDereference

definition initAudioIfNeeded :: "('src, 'e) Library \<Rightarrow> 'src Game \<Rightarrow> 'e abort + 'src Game" where
  "initAudioIfNeeded lib g =
     (if playerLeft g \<noteq> None then Inr g
      else
        let ctx = (case audioContext g of None \<Rightarrow> NewContext sampleRate | Some c \<Rightarrow> c) in
        case DecodeF32 lib of
          Inl err \<Rightarrow> Inl (Fatal err)
        | Inr oggSL \<Rightarrow>
            let leftStream = NewSingleChannelStream (NewInfiniteLoop lib oggSL) True in
            case NewPlayerF32 lib ctx leftStream of
              Inl err \<Rightarrow> Inl (Fatal err)
            | Inr (ctx, pl) \<Rightarrow>
                (case DecodeF32 lib of
                   Inl err \<Rightarrow> Inl (Fatal err)
                 | Inr oggSR \<Rightarrow>
                     let rightStream = NewSingleChannelStream (NewInfiniteLoop lib oggSR) False in
                     case NewPlayerF32 lib ctx rightStream of
                       Inl err \<Rightarrow> Inl (Fatal err)
                     | Inr (ctx, pr) \<Rightarrow>
                         Inr (g\<lparr>audioContext := Some ctx,
                                playerLeft := Some (Play pl),
                                playerRight := Some (Play pr)\<rparr>)))"

text \<open>\<^verbatim>\<open>func (g *Game) Update() error\<close>; the error it returns is always nil.\<close>

definition Update ::
  "('src, 'e) Library \<Rightarrow> (real \<Rightarrow> real) \<Rightarrow> (real \<Rightarrow> real) \<Rightarrow> 'src Game \<Rightarrow> 'e abort + 'src Game" where
  "Update lib rnd cosf g =
     (let g = g\<lparr>count := count g + 1\<rparr>;
          r = phase rnd (count g);
          g = g\<lparr>xpos := xpos_of rnd cosf r\<rparr>;
          g = g\<lparr>panning := panning_of rnd (xpos g)\<rparr>
      in case initAudioIfNeeded lib g of
           Inl a \<Rightarrow> Inl a
         | Inr g \<Rightarrow>
             (case playerLeft g of
                None \<Rightarrow> Inl NilDereference
              | Some pl \<Rightarrow>
                  (case playerRight g of
                     None \<Rightarrow> Inl NilDereference
                   | Some pr \<Rightarrow>
                       Inr (g\<lparr>playerLeft := Some (SetVolume pl (leftVolume rnd (panning g))),
                              playerRight := Some (SetVolume pr (rightVolume rnd (panning g)))\<rparr>))))"

text \<open>The host loop: \<open>k\<close> calls of \<open>Update\<close>, one after the other.\<close>

fun ticks ::
  "('src, 'e) Library \<Rightarrow> (real \<Rightarrow> real) \<Rightarrow> (real \<Rightarrow> real) \<Rightarrow> nat \<Rightarrow> 'src Game \<Rightarrow> 'e abort + 'src Game" where
  "ticks lib rnd cosf 0 g = Inr g"
| "ticks lib rnd cosf (Suc k) g =
     (case Update lib rnd cosf g of
        Inl a \<Rightarrow> Inl a
      | Inr g' \<Rightarrow> ticks lib rnd cosf k g')"

text \<open>The pan position that an update computes when its counter, once advanced, is \<open>c\<close>.\<close>

definition pan_at :: "(real \<Rightarrow> real) \<Rightarrow> (real \<Rightarrow> real) \<Rightarrow> 64 word \<Rightarrow> real" where
  "pan_at rnd cosf c = panning_of rnd (xpos_of rnd cosf (phase rnd c))"

text \<open>A library whose calls all succeed, for the examples.\<close>

definition demo_library :: "(nat, string) Library" where
  "demo_library = \<lparr>DecodeF32 = Inr 0, NewInfiniteLoop = id, NewPlayerF32_err = (\<lambda>c. None)\<rparr>"

text \<open>The number of playback handles made so far for a game.\<close>

definition handles_made :: "'src Game \<Rightarrow> nat" where
  "handles_made g = (case audioContext g of None \<Rightarrow> 0 | Some c \<Rightarrow> players_made c)"

section \<open>Properties of the filter\<close>

text \<open>
  The properties of \<open>Read\<close> are stated for the reads that keep the contract of
  \<^verbatim>\<open>io.Reader\<close>, a count \<open>n\<close> that does not exceed the length of the buffer, and for
  buffers shorter than \<open>2^63 - 8 = 9223372036854775800\<close> bytes, as every allocated
  slice is: then \<^verbatim>\<open>i+8\<close> never wraps around.
\<close>

lemma store_Some_iff:
  "store m i v = Some m' \<longleftrightarrow>
     0 \<le> i \<and> i < int (length (fst m)) \<and> m' = ((fst m)[nat i := v], snd m @ [nat i])"
  by (auto simp: store_def)

lemma wrap64_range: "- 9223372036854775808 \<le> wrap64 x \<and> wrap64 x < 9223372036854775808"
proof -
  have "0 \<le> (x + 9223372036854775808) mod 18446744073709551616"
    by simp
  moreover have "(x + 9223372036854775808) mod 18446744073709551616 < 18446744073709551616"
    by simp
  ultimately show ?thesis
    unfolding wrap64_def by linarith
qed

lemma wrap64_id:
  "- 9223372036854775808 \<le> x \<Longrightarrow> x < 9223372036854775808 \<Longrightarrow> wrap64 x = x"
  by (simp add: wrap64_def)

lemma wrap64_over:
  "9223372036854775808 \<le> x \<Longrightarrow> x < 27670116110564327424 \<Longrightarrow>
     wrap64 x = x - 18446744073709551616"
proof -
  assume a: "9223372036854775808 \<le> x" "x < 27670116110564327424"
  have "(x + 9223372036854775808) mod 18446744073709551616
          = (x + 9223372036854775808 - 18446744073709551616) mod 18446744073709551616"
    by (simp only: minus_mod_self2)
  also have "\<dots> = x + 9223372036854775808 - 18446744073709551616"
    using a by (intro mod_pos_pos_trivial) auto
  finally show ?thesis
    by (simp add: wrap64_def)
qed

text \<open>A frame was zeroed without a panic only if its start \<open>i\<close> is not below \<open>-4\<close>.\<close>

lemma zero_frame_Some_start:
  assumes "zero_frame isLeft' i m = Some m'"
    and "- 9223372036854775808 \<le> i" and "i < 9223372036854775808"
  shows "- 4 \<le> i"
proof (cases isLeft')
  case True
  with assms(1) obtain m1 where "store m (wrap64 (i + 4)) 0 = Some m1"
    by (auto simp: zero_frame_def split: bind_splits)
  then have w: "0 \<le> wrap64 (i + 4)"
    by (simp add: store_Some_iff)
  show ?thesis
  proof (cases "i + 4 < 9223372036854775808")
    case True
    with assms(2) have "wrap64 (i + 4) = i + 4"
      by (intro wrap64_id) auto
    with w show ?thesis by auto
  next
    case False
    with assms(3) have "wrap64 (i + 4) = i + 4 - 18446744073709551616"
      by (intro wrap64_over) auto
    with w assms(3) show ?thesis by auto
  qed
next
  case False
  with assms(1) obtain m1 where "store m i 0 = Some m1"
    by (auto simp: zero_frame_def split: bind_splits)
  then show ?thesis
    by (simp add: store_Some_iff)
qed

lemma loop_measure_step:
  assumes "zero_frame isLeft' i m = Some m'"
  shows "loop_measure (wrap64 (i + 8)) < loop_measure i"
proof (cases "i < - 9223372036854775808 \<or> 9223372036854775808 \<le> i")
  case True
  have "loop_measure (wrap64 (i + 8)) \<le> 18446744073709551620"
    using wrap64_range [of "i + 8"] by (auto simp: loop_measure_def)
  with True show ?thesis
    by (simp add: loop_measure_def)
next
  case False
  then have r: "- 9223372036854775808 \<le> i" "i < 9223372036854775808"
    by auto
  with assms have lo: "- 4 \<le> i"
    by (rule zero_frame_Some_start)
  show ?thesis
  proof (cases "i + 8 < 9223372036854775808")
    case True
    with lo have "wrap64 (i + 8) = i + 8"
      by (intro wrap64_id) auto
    with lo True r show ?thesis
      by (simp add: loop_measure_def)
  next
    case False
    with r have "wrap64 (i + 8) = i + 8 - 18446744073709551616"
      by (intro wrap64_over) auto
    with lo r False show ?thesis
      by (simp add: loop_measure_def)
  qed
qed

termination zero_loop
  by (relation "measure (\<lambda>(isLeft', n, i, m). loop_measure i)")
     (auto intro: loop_measure_step)

declare zero_loop.simps [simp del]

lemma zeroed_at_step:
  assumes "i + 8 \<le> n"
  shows "zeroed_at isLeft' n i k \<longleftrightarrow>
           (i \<le> int k \<and> int k < i + 8 \<and> (if isLeft' then i + 4 \<le> int k else int k < i + 4))
           \<or> zeroed_at isLeft' n (i + 8) k"
proof -
  define d where "d = int k - i"
  have dm: "(d - 8) div 8 = d div 8 - 1" "(d - 8) mod 8 = d mod 8"
    by linarith (rule minus_mod_self2)
  have small: "0 \<le> d \<Longrightarrow> d < 8 \<Longrightarrow> d div 8 = 0 \<and> d mod 8 = d"
    by simp
  have e: "int k - (i + 8) = d - 8" "int k - i = d"
    by (simp_all add: d_def)
  have k: "i \<le> int k \<longleftrightarrow> 0 \<le> d" "int k < i + 8 \<longleftrightarrow> d < 8" "i + 8 \<le> int k \<longleftrightarrow> 8 \<le> d"
    "i + 4 \<le> int k \<longleftrightarrow> 4 \<le> d" "int k < i + 4 \<longleftrightarrow> d < 4"
    by (auto simp: d_def)
  show ?thesis
  proof (cases "d < 8")
    case True
    then have "\<not> zeroed_at isLeft' n (i + 8) k"
      by (simp add: zeroed_at_def k)
    moreover have "zeroed_at isLeft' n i k \<longleftrightarrow>
        (0 \<le> d \<and> (if isLeft' then 4 \<le> d else d < 4))"
      using True small assms by (auto simp: zeroed_at_def e k)
    ultimately show ?thesis
      using True by (simp add: k)
  next
    case False
    then have "zeroed_at isLeft' n i k \<longleftrightarrow> zeroed_at isLeft' n (i + 8) k"
      unfolding zeroed_at_def e dm k by (simp add: algebra_simps)
    with False show ?thesis
      by (simp add: k)
  qed
qed

lemma zeroed_at_done: "\<not> i + 8 \<le> n \<Longrightarrow> \<not> zeroed_at isLeft' n i k"
proof
  assume a: "\<not> i + 8 \<le> n" and z: "zeroed_at isLeft' n i k"
  from z have "0 \<le> int k - i" and b: "i + (int k - i) div 8 * 8 + 8 \<le> n"
    by (simp_all add: zeroed_at_def)
  then have "0 \<le> (int k - i) div 8"
    by simp
  with a b show False by linarith
qed

lemma zero_frame_left:
  assumes "0 \<le> i" "i + 8 \<le> int (length p)" "int (length p) < 9223372036854775808"
  shows "zero_frame True i (p, w) =
           Some (p[nat i + 4 := 0, nat i + 5 := 0, nat i + 6 := 0, nat i + 7 := 0],
                 w @ [nat i + 4, nat i + 5, nat i + 6, nat i + 7])"
  using assms by (simp add: zero_frame_def store_def wrap64_id nat_add_distrib)

lemma zero_frame_right:
  assumes "0 \<le> i" "i + 8 \<le> int (length p)" "int (length p) < 9223372036854775808"
  shows "zero_frame False i (p, w) =
           Some (p[nat i := 0, nat i + 1 := 0, nat i + 2 := 0, nat i + 3 := 0],
                 w @ [nat i, nat i + 1, nat i + 2, nat i + 3])"
  using assms by (simp add: zero_frame_def store_def wrap64_id nat_add_distrib)

lemma zero_frame_result:
  assumes "0 \<le> i" "i + 8 \<le> int (length p)" "int (length p) < 9223372036854775808"
  shows "\<exists>p' w'. zero_frame isLeft' i (p, w) = Some (p', w') \<and> length p' = length p \<and>
           (\<forall>k<length p. p' ! k =
              (if i \<le> int k \<and> int k < i + 8 \<and> (if isLeft' then i + 4 \<le> int k else int k < i + 4)
               then 0 else p ! k)) \<and>
           set w' = set w \<union>
              {k. i \<le> int k \<and> int k < i + 8 \<and> (if isLeft' then i + 4 \<le> int k else int k < i + 4)}"
proof (cases isLeft')
  case True
  have "\<And>k. (i \<le> int k \<and> int k < i + 8 \<and> i + 4 \<le> int k) \<longleftrightarrow>
          k = nat i + 4 \<or> k = nat i + 5 \<or> k = nat i + 6 \<or> k = nat i + 7"
    using assms(1) by auto
  then show ?thesis
    using True assms zero_frame_left [OF assms, of w]
    by (auto simp: nth_list_update)
next
  case False
  have "\<And>k. (i \<le> int k \<and> int k < i + 8 \<and> int k < i + 4) \<longleftrightarrow>
          k = nat i \<or> k = nat i + 1 \<or> k = nat i + 2 \<or> k = nat i + 3"
    using assms(1) by auto
  then show ?thesis
    using False assms zero_frame_right [OF assms, of w]
    by (auto simp: nth_list_update)
qed

text \<open>
  The loop, when the count does not exceed the buffer: it does not panic, keeps the
  length, zeroes exactly the positions \<open>zeroed_at\<close> and stores to no other.
\<close>

lemma zero_loop_result:
  assumes "0 \<le> i" "i \<le> int (length p)" "n \<le> int (length p)"
    and "int (length p) < 9223372036854775800"
  shows "\<exists>p' w'. zero_loop isLeft' n i (p, w) = Some (p', w') \<and> length p' = length p \<and>
           (\<forall>k<length p. p' ! k = (if zeroed_at isLeft' n i k then 0 else p ! k)) \<and>
           set w' = set w \<union> {k. zeroed_at isLeft' n i k}"
  using assms
proof (induction "nat (n - i)" arbitrary: i p w rule: less_induct)
  case less
  have wr: "wrap64 (i + 8) = i + 8"
    using less.prems by (intro wrap64_id) auto
  show ?case
  proof (cases "i + 8 \<le> n")
    case False
    then have e: "{k. zeroed_at isLeft' n i k} = {}"
      by (simp add: zeroed_at_done)
    show ?thesis
      by (subst zero_loop.simps) (simp add: wr False e zeroed_at_done)
  next
    case True
    with less.prems have fr: "0 \<le> i" "i + 8 \<le> int (length p)" "int (length p) < 9223372036854775808"
      by auto
    from zero_frame_result [OF fr, of isLeft' w]
    obtain p1 w1 where f: "zero_frame isLeft' i (p, w) = Some (p1, w1)"
      and l1: "length p1 = length p"
      and c1: "\<forall>k<length p. p1 ! k =
              (if i \<le> int k \<and> int k < i + 8 \<and> (if isLeft' then i + 4 \<le> int k else int k < i + 4)
               then 0 else p ! k)"
      and s1: "set w1 = set w \<union>
              {k. i \<le> int k \<and> int k < i + 8 \<and> (if isLeft' then i + 4 \<le> int k else int k < i + 4)}"
      by blast
    have "nat (n - (i + 8)) < nat (n - i)"
      using True by simp
    from less.hyps [OF this, of p1 w1] less.prems l1 True
    obtain p' w' where r: "zero_loop isLeft' n (i + 8) (p1, w1) = Some (p', w')"
      and l2: "length p' = length p1"
      and c2: "\<forall>k<length p1. p' ! k = (if zeroed_at isLeft' n (i + 8) k then 0 else p1 ! k)"
      and s2: "set w' = set w1 \<union> {k. zeroed_at isLeft' n (i + 8) k}"
      by auto
    have "zero_loop isLeft' n i (p, w) = Some (p', w')"
      by (subst zero_loop.simps) (simp add: wr True f r)
    moreover have "length p' = length p"
      using l1 l2 by simp
    moreover have "\<forall>k<length p. p' ! k = (if zeroed_at isLeft' n i k then 0 else p ! k)"
      using c1 c2 l1 by (simp add: zeroed_at_step [OF True])
    moreover have "set w' = set w \<union> {k. zeroed_at isLeft' n i k}"
      unfolding s2 s1 by (auto simp: zeroed_at_step [OF True])
    ultimately show ?thesis
      by blast
  qed
qed

text \<open>
  What \<open>Read\<close> does when the stream's count does not exceed the buffer: with the loop
  started at 0, the positions zeroed are those of the unwanted half of every frame
  \<open>f\<close> with \<open>8 * f + 8 \<le> n\<close>.
\<close>

lemma zeroed_at_0:
  "zeroed_at isLeft' n 0 k \<longleftrightarrow>
     int (8 * (k div 8)) + 8 \<le> n \<and> (if isLeft' then 4 \<le> k mod 8 else k mod 8 < 4)"
proof -
  have "int k div 8 * 8 = int (8 * (k div 8))" "int k mod 8 = int (k mod 8)"
    by (simp_all add: zdiv_int zmod_int)
  then show ?thesis
    by (simp add: zeroed_at_def mult.commute)
qed

lemma Read_result:
  assumes "rd (ReadSeeker s) p = (src', q, n, err)"
    and "n \<le> int (length q)" and "int (length q) < 9223372036854775800"
  shows "\<exists>q' w. zero_loop (isLeft s) n 0 (q, []) = Some (q', w) \<and>
           Read rd s p = Some (s\<lparr>ReadSeeker := src'\<rparr>, q', n, err) \<and>
           length q' = length q \<and>
           (\<forall>k<length q. q' ! k = (if zeroed_at (isLeft s) n 0 k then 0 else q ! k)) \<and>
           set w = {k. zeroed_at (isLeft s) n 0 k}"
proof -
  from zero_loop_result [of 0 q n "isLeft s" "[]"] assms(2,3)
  obtain q' w where "zero_loop (isLeft s) n 0 (q, []) = Some (q', w)"
    and "length q' = length q"
    and "\<forall>k<length q. q' ! k = (if zeroed_at (isLeft s) n 0 k then 0 else q ! k)"
    and "set w = {k. zeroed_at (isLeft s) n 0 k}"
    by auto
  with assms(1) show ?thesis
    by (simp add: Read_def)
qed

lemma frame_index:
  "j < 4 \<Longrightarrow> (8 * f + j) div 8 = f \<and> (8 * f + j) mod 8 = j \<and>
     (8 * f + 4 + j) div 8 = f \<and> (8 * f + 4 + j) mod 8 = 4 + j"
  for f j :: nat
  by (simp add: add.assoc)

lemma Read_sample16_left:
  "Read (fixed_reader sample16 16 None) (NewSingleChannelStream () True) (replicate 16 0) =
     Some (NewSingleChannelStream () True,
           [1, 2, 3, 4, 0, 0, 0, 0, 9, 10, 11, 12, 0, 0, 0, 0], 16, None)"
  by (simp add: Read_def fixed_reader_def sample16_def NewSingleChannelStream_def
      zero_loop.simps zero_frame_def store_def wrap64_def)

lemma Read_sample16_right:
  "Read (fixed_reader sample16 16 None) (NewSingleChannelStream () False) (replicate 16 0) =
     Some (NewSingleChannelStream () False,
           [0, 0, 0, 0, 5, 6, 7, 8, 0, 0, 0, 0, 13, 14, 15, 16], 16, None)"
  by (simp add: Read_def fixed_reader_def sample16_def NewSingleChannelStream_def
      zero_loop.simps zero_frame_def store_def wrap64_def)

text \<open>
  C1. A read through the filter whose count \<open>n\<close> does not exceed the buffer returns,
  and in every complete 8-byte frame below \<open>n\<close> (frame \<open>f\<close> with \<open>8 * f + 8 \<le> n\<close>)
  the keep-left filter leaves bytes 0..3 as the stream delivered them and makes bytes
  4..7 zero, while the keep-right filter makes bytes 0..3 zero and leaves bytes 4..7.
  The buffer 1..16 becomes 1,2,3,4,0,0,0,0,9,10,11,12,0,0,0,0 under keep-left and
  0,0,0,0,5,6,7,8,0,0,0,0,13,14,15,16 under keep-right. (The buffer is shorter than
  \<open>2^63 - 8\<close> bytes, so that the loop's index arithmetic stays inside 64 bits.)
\<close>

theorem Read_zeroes_unwanted_channel:
  assumes "rd (ReadSeeker s) p = (src', q, n, err)"
    and "n \<le> int (length q)" and "int (length q) < 9223372036854775800"
  shows "(\<exists>q'. Read rd s p = Some (s\<lparr>ReadSeeker := src'\<rparr>, q', n, err) \<and>
           length q' = length q \<and>
           (\<forall>f j. int (8 * f) + 8 \<le> n \<and> j < 4 \<longrightarrow>
              (if isLeft s
               then q' ! (8 * f + j) = q ! (8 * f + j) \<and> q' ! (8 * f + 4 + j) = 0
               else q' ! (8 * f + j) = 0 \<and> q' ! (8 * f + 4 + j) = q ! (8 * f + 4 + j)))) \<and>
         Read (fixed_reader sample16 16 (None :: unit option))
           (NewSingleChannelStream () True) (replicate 16 0) =
         Some (NewSingleChannelStream () True,
               [1, 2, 3, 4, 0, 0, 0, 0, 9, 10, 11, 12, 0, 0, 0, 0], 16, None) \<and>
         Read (fixed_reader sample16 16 (None :: unit option))
           (NewSingleChannelStream () False) (replicate 16 0) =
         Some (NewSingleChannelStream () False,
               [0, 0, 0, 0, 5, 6, 7, 8, 0, 0, 0, 0, 13, 14, 15, 16], 16, None)"
proof -
  from Read_result [of rd s p src' q n err, OF assms]
  obtain q' w where r: "Read rd s p = Some (s\<lparr>ReadSeeker := src'\<rparr>, q', n, err)"
    and l: "length q' = length q"
    and c: "\<forall>k<length q. q' ! k = (if zeroed_at (isLeft s) n 0 k then 0 else q ! k)"
    and "set w = {k. zeroed_at (isLeft s) n 0 k}"
    by blast
  have "if isLeft s
        then q' ! (8 * f + j) = q ! (8 * f + j) \<and> q' ! (8 * f + 4 + j) = 0
        else q' ! (8 * f + j) = 0 \<and> q' ! (8 * f + 4 + j) = q ! (8 * f + 4 + j)"
    if f: "int (8 * f) + 8 \<le> n" and j: "j < 4" for f j
  proof -
    from f j assms(2) have b: "8 * f + j < length q" "8 * f + 4 + j < length q"
      by linarith+
    from c b have "q' ! (8 * f + j) = (if zeroed_at (isLeft s) n 0 (8 * f + j) then 0 else q ! (8 * f + j))"
      and "q' ! (8 * f + 4 + j) =
             (if zeroed_at (isLeft s) n 0 (8 * f + 4 + j) then 0 else q ! (8 * f + 4 + j))"
      by blast+
    with f j show ?thesis
      by (simp add: zeroed_at_0 frame_index)
  qed
  with r l have "\<exists>q'. Read rd s p = Some (s\<lparr>ReadSeeker := src'\<rparr>, q', n, err) \<and>
           length q' = length q \<and>
           (\<forall>f j. int (8 * f) + 8 \<le> n \<and> j < 4 \<longrightarrow>
              (if isLeft s
               then q' ! (8 * f + j) = q ! (8 * f + j) \<and> q' ! (8 * f + 4 + j) = 0
               else q' ! (8 * f + j) = 0 \<and> q' ! (8 * f + 4 + j) = q ! (8 * f + 4 + j)))"
    by blast
  then show ?thesis
    using Read_sample16_left Read_sample16_right by blast
qed

theorem Read_zeroes_unwanted_channel_witness:
  "\<exists>q'. Read (fixed_reader sample16 16 (None :: unit option))
            (NewSingleChannelStream () True) (replicate 16 0) =
          Some (NewSingleChannelStream () True, q', 16, None) \<and>
        length q' = 16 \<and> q' ! 9 = 10 \<and> q' ! 13 = 0"
proof -
  have h: "fixed_reader sample16 16 (None :: unit option)
             (ReadSeeker (NewSingleChannelStream () True)) (replicate 16 0) =
           ((), sample16, 16, None)"
    "(16 :: int) \<le> int (length sample16)"
    "int (length sample16) < 9223372036854775800"
    by (simp_all add: fixed_reader_def sample16_def)
  from Read_zeroes_unwanted_channel [of "fixed_reader sample16 16 (None :: unit option)"
      "NewSingleChannelStream () True" "replicate 16 0" "()" sample16 16 None, OF h]
  obtain q' where r: "Read (fixed_reader sample16 16 (None :: unit option))
            (NewSingleChannelStream () True) (replicate 16 0) =
          Some (NewSingleChannelStream () True, q', 16, None)"
    and l: "length q' = length sample16"
    and c: "\<forall>f j. int (8 * f) + 8 \<le> 16 \<and> j < 4 \<longrightarrow>
              q' ! (8 * f + j) = sample16 ! (8 * f + j) \<and> q' ! (8 * f + 4 + j) = 0"
    by (auto simp: NewSingleChannelStream_def)
  from c [rule_format, of 1 1] have "q' ! 9 = 10 \<and> q' ! 13 = 0"
    by (simp add: sample16_def)
  with r l show ?thesis
    by (auto simp: sample16_def)
qed

text \<open>
  C7. Whenever the filter's \<open>Read\<close> returns, it returns the count and the error of
  the underlying stream's read, whatever they are; and it does return whenever that
  count does not exceed the buffer. The filter has no error of its own to report: its
  only other outcome is the index panic of a stream that reports more bytes than the
  buffer holds.
\<close>

theorem Read_returns_count_and_error:
  assumes "rd (ReadSeeker s) p = (src', q, n, err)"
  shows "(\<forall>s' q' n' err'. Read rd s p = Some (s', q', n', err') \<longrightarrow> n' = n \<and> err' = err) \<and>
         (n \<le> int (length q) \<and> int (length q) < 9223372036854775800 \<longrightarrow>
            (\<exists>q'. Read rd s p = Some (s\<lparr>ReadSeeker := src'\<rparr>, q', n, err)))"
proof -
  have "n' = n \<and> err' = err" if "Read rd s p = Some (s', q', n', err')" for s' q' n' err'
    using that assms by (auto simp: Read_def split: option.splits)
  moreover have "\<exists>q'. Read rd s p = Some (s\<lparr>ReadSeeker := src'\<rparr>, q', n, err)"
    if "n \<le> int (length q)" "int (length q) < 9223372036854775800"
    using Read_result [of rd s p src' q n err, OF assms that] by blast
  ultimately show ?thesis
    by blast
qed

theorem Read_returns_count_and_error_witness:
  "\<exists>q'. Read (fixed_reader sample16 11 (Some ''unexpected EOF''))
            (NewSingleChannelStream () False) (replicate 16 0) =
          Some (NewSingleChannelStream () False, q', 11, Some ''unexpected EOF'')"
proof -
  have h: "fixed_reader sample16 11 (Some ''unexpected EOF'')
             (ReadSeeker (NewSingleChannelStream () False)) (replicate 16 0) =
           ((), sample16, 11, Some ''unexpected EOF'')"
    by (simp add: fixed_reader_def)
  have b: "(11 :: int) \<le> int (length sample16) \<and> int (length sample16) < 9223372036854775800"
    by (simp add: sample16_def)
  from Read_returns_count_and_error [of "fixed_reader sample16 11 (Some ''unexpected EOF'')"
      "NewSingleChannelStream () False" "replicate 16 0" "()" sample16 11
      "Some ''unexpected EOF''", OF h] b
  show ?thesis
    by (auto simp: NewSingleChannelStream_def)
qed

text \<open>
  C5. The bytes of the returned range that lie past its last complete frame, at the
  positions from \<open>8 * (n div 8)\<close> up to \<open>n\<close> (the last \<open>n mod 8\<close> bytes, 1 to 7 of
  them when \<open>n\<close> is not a multiple of 8), come out of either filter as the stream
  delivered them.
\<close>

theorem Read_keeps_partial_tail:
  assumes "rd (ReadSeeker s) p = (src', q, n, err)"
    and "n \<le> int (length q)" and "int (length q) < 9223372036854775800"
  shows "\<exists>q'. Read rd s p = Some (s\<lparr>ReadSeeker := src'\<rparr>, q', n, err) \<and>
           (\<forall>k. 8 * (n div 8) \<le> int k \<and> int k < n \<longrightarrow> q' ! k = q ! k)"
proof -
  from Read_result [of rd s p src' q n err, OF assms]
  obtain q' w where r: "Read rd s p = Some (s\<lparr>ReadSeeker := src'\<rparr>, q', n, err)"
    and c: "\<forall>k<length q. q' ! k = (if zeroed_at (isLeft s) n 0 k then 0 else q ! k)"
    and "set w = {k. zeroed_at (isLeft s) n 0 k}"
    by blast
  have "q' ! k = q ! k" if t: "8 * (n div 8) \<le> int k" "int k < n" for k
  proof -
    have "n div 8 \<le> int k div 8"
      using t(1) by linarith
    then have "\<not> int k div 8 * 8 + 8 \<le> n"
      by linarith
    then have "\<not> zeroed_at (isLeft s) n 0 k"
      by (simp add: zeroed_at_def)
    moreover have "k < length q"
      using t(2) assms(2) by linarith
    ultimately show ?thesis
      using c by simp
  qed
  with r show ?thesis
    by blast
qed

theorem Read_keeps_partial_tail_witness:
  "\<exists>q'. Read (fixed_reader sample16 11 (None :: unit option))
            (NewSingleChannelStream () True) (replicate 16 0) =
          Some (NewSingleChannelStream () True, q', 11, None) \<and>
        q' ! 8 = 9 \<and> q' ! 9 = 10 \<and> q' ! 10 = 11"
proof -
  have h: "fixed_reader sample16 11 (None :: unit option)
             (ReadSeeker (NewSingleChannelStream () True)) (replicate 16 0) =
           ((), sample16, 11, None)"
    "(11 :: int) \<le> int (length sample16)"
    "int (length sample16) < 9223372036854775800"
    by (simp_all add: fixed_reader_def sample16_def)
  from Read_keeps_partial_tail [of "fixed_reader sample16 11 (None :: unit option)"
      "NewSingleChannelStream () True" "replicate 16 0" "()" sample16 11 None, OF h]
  obtain q' where r: "Read (fixed_reader sample16 11 (None :: unit option))
            (NewSingleChannelStream () True) (replicate 16 0) =
          Some (NewSingleChannelStream () True, q', 11, None)"
    and c: "\<forall>k. 8 * ((11 :: int) div 8) \<le> int k \<and> int k < 11 \<longrightarrow> q' ! k = sample16 ! k"
    by (auto simp: NewSingleChannelStream_def)
  from c [rule_format, of 8] c [rule_format, of 9] c [rule_format, of 10]
  have "q' ! 8 = 9 \<and> q' ! 9 = 10 \<and> q' ! 10 = 11"
    by (simp add: sample16_def)
  with r show ?thesis
    by blast
qed

text \<open>
  C9. The two variants read the same delivered bytes \<open>q\<close> and count \<open>n\<close>. At every
  position inside a complete frame of the returned range, exactly one of them stores
  a zero there and the other does not touch the byte, so the keep-left and keep-right
  outputs add up, byte by byte, to the delivered bytes.
\<close>

theorem filters_complementary:
  assumes "rdL (ReadSeeker sL) pL = (srcL, q, n, errL)"
    and "rdR (ReadSeeker sR) pR = (srcR, q, n, errR)"
    and "isLeft sL" and "\<not> isLeft sR"
    and "n \<le> int (length q)" and "int (length q) < 9223372036854775800"
  shows "\<exists>qL wL qR wR.
           zero_loop True n 0 (q, []) = Some (qL, wL) \<and>
           zero_loop False n 0 (q, []) = Some (qR, wR) \<and>
           Read rdL sL pL = Some (sL\<lparr>ReadSeeker := srcL\<rparr>, qL, n, errL) \<and>
           Read rdR sR pR = Some (sR\<lparr>ReadSeeker := srcR\<rparr>, qR, n, errR) \<and>
           (\<forall>k. int k < 8 * (n div 8) \<longrightarrow>
              (k \<in> set wL \<and> k \<notin> set wR \<and> qL ! k = 0 \<and> qR ! k = q ! k \<or>
               k \<in> set wR \<and> k \<notin> set wL \<and> qR ! k = 0 \<and> qL ! k = q ! k) \<and>
              qL ! k + qR ! k = q ! k)"
proof -
  from Read_result [of rdL sL pL srcL q n errL, OF assms(1,5,6)] assms(3)
  obtain qL wL where l: "zero_loop True n 0 (q, []) = Some (qL, wL)"
      "Read rdL sL pL = Some (sL\<lparr>ReadSeeker := srcL\<rparr>, qL, n, errL)"
    and cl: "\<forall>k<length q. qL ! k = (if zeroed_at True n 0 k then 0 else q ! k)"
    and wl: "set wL = {k. zeroed_at True n 0 k}"
    by auto
  from Read_result [of rdR sR pR srcR q n errR, OF assms(2,5,6)] assms(4)
  obtain qR wR where r: "zero_loop False n 0 (q, []) = Some (qR, wR)"
      "Read rdR sR pR = Some (sR\<lparr>ReadSeeker := srcR\<rparr>, qR, n, errR)"
    and cr: "\<forall>k<length q. qR ! k = (if zeroed_at False n 0 k then 0 else q ! k)"
    and wr: "set wR = {k. zeroed_at False n 0 k}"
    by auto
  have "(k \<in> set wL \<and> k \<notin> set wR \<and> qL ! k = 0 \<and> qR ! k = q ! k \<or>
         k \<in> set wR \<and> k \<notin> set wL \<and> qR ! k = 0 \<and> qL ! k = q ! k) \<and>
        qL ! k + qR ! k = q ! k"
    if t: "int k < 8 * (n div 8)" for k
  proof -
    have "int k div 8 < n div 8"
      using t by linarith
    then have "int k div 8 * 8 + 8 \<le> n"
      by linarith
    then have z: "zeroed_at True n 0 k \<longleftrightarrow> \<not> zeroed_at False n 0 k"
      by (auto simp: zeroed_at_def)
    have "int k < n"
      using t by linarith
    with assms(5) have "k < length q"
      by linarith
    with cl cr have "qL ! k = (if zeroed_at True n 0 k then 0 else q ! k)"
      and "qR ! k = (if zeroed_at False n 0 k then 0 else q ! k)"
      by blast+
    with z show ?thesis
      by (auto simp: wl wr)
  qed
  with l r show ?thesis
    by blast
qed

theorem filters_complementary_witness:
  "\<exists>qL qR.
     Read (fixed_reader sample16 11 (None :: unit option))
       (NewSingleChannelStream () True) (replicate 16 0) =
     Some (NewSingleChannelStream () True, qL, 11, None) \<and>
     Read (fixed_reader sample16 11 (None :: unit option))
       (NewSingleChannelStream () False) (replicate 16 0) =
     Some (NewSingleChannelStream () False, qR, 11, None) \<and>
     qL ! 2 + qR ! 2 = 3 \<and> qL ! 6 + qR ! 6 = 7"
proof -
  have h: "fixed_reader sample16 11 (None :: unit option)
             (ReadSeeker (NewSingleChannelStream () True)) (replicate 16 0) =
           ((), sample16, 11, None)"
    "fixed_reader sample16 11 (None :: unit option)
             (ReadSeeker (NewSingleChannelStream () False)) (replicate 16 0) =
           ((), sample16, 11, None)"
    "isLeft (NewSingleChannelStream () True)"
    "\<not> isLeft (NewSingleChannelStream () False)"
    "(11 :: int) \<le> int (length sample16)"
    "int (length sample16) < 9223372036854775800"
    by (simp_all add: fixed_reader_def sample16_def NewSingleChannelStream_def)
  from filters_complementary [of "fixed_reader sample16 11 (None :: unit option)"
      "NewSingleChannelStream () True" "replicate 16 0" "()" sample16 11 None
      "fixed_reader sample16 11 (None :: unit option)"
      "NewSingleChannelStream () False" "replicate 16 0" "()" None, OF h]
  obtain qL qR where r: "Read (fixed_reader sample16 11 (None :: unit option))
       (NewSingleChannelStream () True) (replicate 16 0) =
     Some (NewSingleChannelStream () True, qL, 11, None)"
     "Read (fixed_reader sample16 11 (None :: unit option))
       (NewSingleChannelStream () False) (replicate 16 0) =
     Some (NewSingleChannelStream () False, qR, 11, None)"
    and c: "\<forall>k. int k < 8 * ((11 :: int) div 8) \<longrightarrow> qL ! k + qR ! k = sample16 ! k"
    by (auto simp: NewSingleChannelStream_def)
  from c [rule_format, of 2] c [rule_format, of 6]
  have "qL ! 2 + qR ! 2 = 3 \<and> qL ! 6 + qR ! 6 = 7"
    by (simp add: sample16_def)
  with r show ?thesis
    by blast
qed

text \<open>
  C10. When the underlying read reports a count \<open>n\<close> that does not exceed the length
  of the caller's buffer, the loop finishes without an index panic; every position it
  stores to lies in a frame that ends at or below \<open>n\<close>, hence below \<open>n\<close> and inside
  the buffer; and every byte at a position from \<open>n\<close> on is left as it was.
\<close>

theorem Read_stays_in_bounds:
  assumes "rd (ReadSeeker s) p = (src', q, n, err)"
    and "length q = length p"
    and "n \<le> int (length p)" and "int (length p) < 9223372036854775800"
  shows "\<exists>q' w. zero_loop (isLeft s) n 0 (q, []) = Some (q', w) \<and>
           Read rd s p = Some (s\<lparr>ReadSeeker := src'\<rparr>, q', n, err) \<and>
           length q' = length p \<and>
           (\<forall>k\<in>set w. int (8 * (k div 8)) + 8 \<le> n \<and> int k < n \<and> k < length p) \<and>
           (\<forall>k. n \<le> int k \<and> k < length p \<longrightarrow> q' ! k = q ! k)"
proof -
  from assms have a: "n \<le> int (length q)" "int (length q) < 9223372036854775800"
    by simp_all
  from Read_result [of rd s p src' q n err, OF assms(1) a]
  obtain q' w where r: "zero_loop (isLeft s) n 0 (q, []) = Some (q', w)"
      "Read rd s p = Some (s\<lparr>ReadSeeker := src'\<rparr>, q', n, err)"
      "length q' = length q"
    and c: "\<forall>k<length q. q' ! k = (if zeroed_at (isLeft s) n 0 k then 0 else q ! k)"
    and w: "set w = {k. zeroed_at (isLeft s) n 0 k}"
    by blast
  have below: "int (8 * (k div 8)) + 8 \<le> n \<and> int k < n \<and> k < length p"
    if "zeroed_at (isLeft s) n 0 k" for k
  proof -
    from that have f: "int (8 * (k div 8)) + 8 \<le> n"
      by (simp add: zeroed_at_0)
    have "k < 8 * (k div 8) + 8"
      by linarith
    with f have "int k < n"
      by linarith
    with f assms(3) show ?thesis
      by linarith
  qed
  have "q' ! k = q ! k" if "n \<le> int k" "k < length p" for k
  proof -
    from that(1) below [of k] have "\<not> zeroed_at (isLeft s) n 0 k"
      by auto
    with c that(2) assms(2) show ?thesis
      by simp
  qed
  with r below w assms(2) show ?thesis
    by auto
qed

theorem Read_stays_in_bounds_witness:
  "\<exists>q' w. zero_loop True 11 0 (sample16, []) = Some (q', w) \<and>
     Read (fixed_reader sample16 11 (None :: unit option))
       (NewSingleChannelStream () True) (replicate 16 0) =
     Some (NewSingleChannelStream () True, q', 11, None) \<and>
     length q' = 16 \<and> q' ! 11 = 12 \<and> q' ! 15 = 16"
proof -
  have h: "fixed_reader sample16 11 (None :: unit option)
             (ReadSeeker (NewSingleChannelStream () True)) (replicate 16 0) =
           ((), sample16, 11, None)"
    "length sample16 = length (replicate 16 (0 :: byte))"
    "(11 :: int) \<le> int (length (replicate 16 (0 :: byte)))"
    "int (length (replicate 16 (0 :: byte))) < 9223372036854775800"
    by (simp_all add: fixed_reader_def sample16_def)
  from Read_stays_in_bounds [of "fixed_reader sample16 11 (None :: unit option)"
      "NewSingleChannelStream () True" "replicate 16 0" "()" sample16 11 None, OF h]
  obtain q' w where r: "zero_loop True 11 0 (sample16, []) = Some (q', w)"
     "Read (fixed_reader sample16 11 (None :: unit option))
       (NewSingleChannelStream () True) (replicate 16 0) =
     Some (NewSingleChannelStream () True, q', 11, None)"
     "length q' = 16"
    and c: "\<forall>k. (11 :: int) \<le> int k \<and> k < 16 \<longrightarrow> q' ! k = sample16 ! k"
    by (auto simp: NewSingleChannelStream_def)
  from c [rule_format, of 11] c [rule_format, of 15]
  have "q' ! 11 = 12 \<and> q' ! 15 = 16"
    by (simp add: sample16_def)
  with r show ?thesis
    by blast
qed

section \<open>Properties of the controller\<close>

lemma float64_rounding_id: "float64_rounding id"
  by (simp add: float64_rounding_def mono_def)

lemma rnd_int:
  assumes "float64_rounding rnd" and "\<bar>k\<bar> \<le> 9007199254740992"
  shows "rnd (of_int k) = of_int k"
  using assms by (simp add: float64_rounding_def)

lemma rnd_small:
  assumes "float64_rounding rnd"
  shows "rnd 0 = 0" "rnd 1 = 1" "rnd (- 1) = - 1" "rnd 2 = 2" "rnd 320 = 320" "rnd (- 320) = - 320"
    "rnd 640 = 640"
  using rnd_int [OF assms, of 0] rnd_int [OF assms, of 1] rnd_int [OF assms, of "- 1"]
    rnd_int [OF assms, of 2] rnd_int [OF assms, of 320] rnd_int [OF assms, of "- 320"]
    rnd_int [OF assms, of 640]
  by simp_all

lemma rnd_mono:
  assumes "float64_rounding rnd" and "x \<le> y"
  shows "rnd x \<le> rnd y"
  using assms by (simp add: float64_rounding_def mono_def)

lemma xpos_of_range:
  assumes r: "float64_rounding rnd" and c: "- 1 \<le> cosf x" "cosf x \<le> 1"
  shows "0 \<le> xpos_of rnd cosf x \<and> xpos_of rnd cosf x \<le> 640"
proof -
  define a where "a = rnd (cosf x * 320)"
  have "rnd (- 320) \<le> a" "a \<le> rnd 320"
    unfolding a_def using c by (auto intro!: rnd_mono [OF r])
  then have a: "- 320 \<le> a" "a \<le> 320"
    by (simp_all add: rnd_small [OF r])
  have "rnd 0 \<le> rnd (320 + a)" "rnd (320 + a) \<le> rnd 640"
    using a by (auto intro!: rnd_mono [OF r])
  then show ?thesis
    by (simp add: xpos_of_def screenWidth_def a_def rnd_small [OF r])
qed

lemma panning_of_range:
  assumes r: "float64_rounding rnd" and x: "0 \<le> x" "x \<le> 640"
  shows "- 1 \<le> panning_of rnd x \<and> panning_of rnd x \<le> 1"
proof -
  define t where "t = rnd (x / 640)"
  have "rnd 0 \<le> t" "t \<le> rnd 1"
    unfolding t_def using x by (auto intro!: rnd_mono [OF r])
  then have t: "0 \<le> t" "t \<le> 1"
    by (simp_all add: rnd_small [OF r])
  define u where "u = rnd (1 - t)"
  have "rnd 0 \<le> u" "u \<le> rnd 1"
    unfolding u_def using t by (auto intro!: rnd_mono [OF r])
  then have u: "0 \<le> u" "u \<le> 1"
    by (simp_all add: rnd_small [OF r])
  define v where "v = rnd (- 1 * u)"
  have "rnd (- 1) \<le> v" "v \<le> rnd 0"
    unfolding v_def using u by (auto intro!: rnd_mono [OF r])
  then have v: "- 1 \<le> v" "v \<le> 0"
    by (simp_all add: rnd_small [OF r])
  define w where "w = rnd (1 * t)"
  have "rnd 0 \<le> w" "w \<le> rnd 1"
    unfolding w_def using t by (auto intro!: rnd_mono [OF r])
  then have w: "0 \<le> w" "w \<le> 1"
    by (simp_all add: rnd_small [OF r])
  have "rnd (- 1) \<le> rnd (v + w)" "rnd (v + w) \<le> rnd 1"
    using v w by (auto intro!: rnd_mono [OF r])
  then have "- 1 \<le> rnd (v + w)" "rnd (v + w) \<le> 1"
    by (simp_all add: rnd_small [OF r])
  moreover have "panning_of rnd x = rnd (v + w)"
    by (simp add: panning_of_def lerp_def screenWidth_def v_def w_def u_def t_def)
  ultimately show ?thesis
    by simp
qed

lemma pan_at_range:
  assumes "float64_rounding rnd" and "\<forall>x. - 1 \<le> cosf x \<and> cosf x \<le> 1"
  shows "- 1 \<le> pan_at rnd cosf c \<and> pan_at rnd cosf c \<le> 1"
proof -
  from assms have "0 \<le> xpos_of rnd cosf (phase rnd c) \<and> xpos_of rnd cosf (phase rnd c) \<le> 640"
    by (intro xpos_of_range) auto
  with assms(1) show ?thesis
    unfolding pan_at_def by (intro panning_of_range) auto
qed

lemma initAudioIfNeeded_keeps:
  assumes "initAudioIfNeeded lib g = Inr g'"
  shows "count g' = count g \<and> panning g' = panning g \<and> xpos g' = xpos g"
  using assms
  by (auto simp: initAudioIfNeeded_def Let_def split: if_splits sum.splits prod.splits)

lemma Update_Inr:
  assumes "Update lib rnd cosf g = Inr g'"
  shows "count g' = count g + 1 \<and>
         xpos g' = xpos_of rnd cosf (phase rnd (count g')) \<and>
         panning g' = pan_at rnd cosf (count g') \<and>
         (\<exists>pl pr. playerLeft g' = Some pl \<and> playerRight g' = Some pr \<and>
            volume pl = leftVolume rnd (panning g') \<and>
            volume pr = rightVolume rnd (panning g'))"
proof -
  define g1 where "g1 = g\<lparr>count := count g + 1,
      xpos := xpos_of rnd cosf (phase rnd (count g + 1)),
      panning := panning_of rnd (xpos_of rnd cosf (phase rnd (count g + 1)))\<rparr>"
  from assms obtain g2 pl pr where i: "initAudioIfNeeded lib g1 = Inr g2"
    and p: "playerLeft g2 = Some pl" "playerRight g2 = Some pr"
    and e: "g' = g2\<lparr>playerLeft := Some (SetVolume pl (leftVolume rnd (panning g2))),
                     playerRight := Some (SetVolume pr (rightVolume rnd (panning g2)))\<rparr>"
    by (auto simp: Update_def Let_def g1_def split: sum.splits option.splits)
  from initAudioIfNeeded_keeps [OF i]
  have "count g2 = count g + 1" "xpos g2 = xpos_of rnd cosf (phase rnd (count g + 1))"
    "panning g2 = pan_at rnd cosf (count g + 1)"
    by (simp_all add: g1_def pan_at_def)
  with e show ?thesis
    by (simp add: SetVolume_def)
qed

lemma ticks_Inr:
  assumes "ticks lib rnd cosf k g = Inr g'" and "0 < k"
  shows "panning g' = pan_at rnd cosf (count g') \<and> count g' = count g + of_nat k"
  using assms
proof (induction k arbitrary: g)
  case 0
  then show ?case by simp
next
  case (Suc k)
  from Suc.prems(1) obtain g1 where u: "Update lib rnd cosf g = Inr g1"
    and t: "ticks lib rnd cosf k g1 = Inr g'"
    by (auto split: sum.splits)
  show ?case
  proof (cases k)
    case 0
    with t have "g' = g1" by simp
    with Update_Inr [OF u] 0 show ?thesis by simp
  next
    case (Suc j)
    with Suc.IH [OF t] Update_Inr [OF u] show ?thesis
      by simp
  qed
qed

lemma initAudioIfNeeded_ready:
  "playerLeft g \<noteq> None \<Longrightarrow> initAudioIfNeeded lib g = Inr g"
  by (simp add: initAudioIfNeeded_def)

lemma initAudioIfNeeded_first:
  assumes "DecodeF32 lib = Inr src" and "\<forall>c. NewPlayerF32_err lib c = None"
    and "playerLeft g = None"
  shows "\<exists>g' pl pr. initAudioIfNeeded lib g = Inr g' \<and>
           playerLeft g' = Some pl \<and> playerRight g' = Some pr \<and>
           isLeft (source pl) \<and> \<not> isLeft (source pr) \<and> playing pl \<and> playing pr \<and>
           handles_made g' = handles_made g + 2"
  using assms
  by (auto simp: initAudioIfNeeded_def NewPlayerF32_def NewContext_def handles_made_def Play_def
      NewSingleChannelStream_def Let_def split: option.splits)

lemma Update_ready:
  assumes "playerLeft g = Some pl" and "playerRight g = Some pr"
  shows "\<exists>g'. Update lib rnd cosf g = Inr g' \<and> playerLeft g' \<noteq> None \<and>
           playerRight g' \<noteq> None \<and> audioContext g' = audioContext g"
  using assms by (simp add: Update_def Let_def initAudioIfNeeded_def)

lemma Update_first:
  assumes "DecodeF32 lib = Inr src" and "\<forall>c. NewPlayerF32_err lib c = None"
    and "playerLeft g = None"
  shows "\<exists>g'. Update lib rnd cosf g = Inr g' \<and> playerLeft g' \<noteq> None \<and>
           playerRight g' \<noteq> None \<and> handles_made g' = handles_made g + 2"
proof -
  define g1 where "g1 = g\<lparr>count := count g + 1,
      xpos := xpos_of rnd cosf (phase rnd (count g + 1)),
      panning := panning_of rnd (xpos_of rnd cosf (phase rnd (count g + 1)))\<rparr>"
  have "playerLeft g1 = None"
    using assms(3) by (simp add: g1_def)
  from initAudioIfNeeded_first [OF assms(1,2) this]
  obtain g2 pl pr where "initAudioIfNeeded lib g1 = Inr g2"
    "playerLeft g2 = Some pl" "playerRight g2 = Some pr"
    "handles_made g2 = handles_made g1 + 2"
    by blast
  moreover have "Update lib rnd cosf g =
      (case initAudioIfNeeded lib g1 of
           Inl a \<Rightarrow> Inl a
         | Inr g \<Rightarrow>
             (case playerLeft g of
                None \<Rightarrow> Inl NilDereference
              | Some pl \<Rightarrow>
                  (case playerRight g of
                     None \<Rightarrow> Inl NilDereference
                   | Some pr \<Rightarrow>
                       Inr (g\<lparr>playerLeft := Some (SetVolume pl (leftVolume rnd (panning g))),
                              playerRight := Some (SetVolume pr (rightVolume rnd (panning g)))\<rparr>))))"
    by (simp add: Update_def Let_def g1_def)
  moreover have "handles_made g1 = handles_made g"
    by (simp add: handles_made_def g1_def)
  ultimately show ?thesis
    by (simp add: handles_made_def)
qed

lemma ticks_ready:
  assumes "playerLeft g \<noteq> None" and "playerRight g \<noteq> None"
  shows "\<exists>g'. ticks lib rnd cosf k g = Inr g' \<and> playerLeft g' \<noteq> None \<and>
           playerRight g' \<noteq> None \<and> audioContext g' = audioContext g"
  using assms
proof (induction k arbitrary: g)
  case 0
  then show ?case by simp
next
  case (Suc k)
  from Suc.prems obtain pl pr where "playerLeft g = Some pl" "playerRight g = Some pr"
    by auto
  from Update_ready [OF this, of lib rnd cosf]
  obtain g1 where u: "Update lib rnd cosf g = Inr g1"
    and p: "playerLeft g1 \<noteq> None" "playerRight g1 \<noteq> None"
    and c: "audioContext g1 = audioContext g"
    by blast
  from Suc.IH [OF p] u c show ?case
    by auto
qed

lemma demo_library_ok:
  "DecodeF32 demo_library = Inr 0" "\<forall>c. NewPlayerF32_err demo_library c = None"
  by (simp_all add: demo_library_def)



lemma pan_at_zero:
  assumes r: "float64_rounding rnd" and c: "cosf 0 = 1"
  shows "phase rnd 0 = 0 \<and> cosf (phase rnd 0) = 1 \<and>
         xpos_of rnd cosf (phase rnd 0) = 640 \<and> pan_at rnd cosf 0 = 1"
proof -
  have p: "phase rnd 0 = 0"
    by (simp add: phase_def rnd_small [OF r])
  have x: "xpos_of rnd cosf 0 = 640"
    by (simp add: xpos_of_def screenWidth_def c rnd_small [OF r])
  have "panning_of rnd 640 = 1"
    by (simp add: panning_of_def lerp_def screenWidth_def rnd_small [OF r])
  with p x c show ?thesis
    by (simp add: pan_at_def)
qed




text \<open>
  C3. Whatever value the tick counter has reached, the pan position an update
  computes lies in \<open>[-1, 1]\<close>: for every counter value, and so after any number of
  calls of \<open>Update\<close> from any state. (\<^verbatim>\<open>math.Cos\<close> is taken to return values in
  \<open>[-1, 1]\<close>.)
\<close>

theorem panning_within_bounds:
  assumes "float64_rounding rnd" and "\<forall>x. - 1 \<le> cosf x \<and> cosf x \<le> 1"
  shows "(\<forall>c. - 1 \<le> pan_at rnd cosf c \<and> pan_at rnd cosf c \<le> 1) \<and>
         (\<forall>k g'. 0 < k \<and> ticks lib rnd cosf k g = Inr g' \<longrightarrow>
            panning g' = pan_at rnd cosf (count g') \<and> - 1 \<le> panning g' \<and> panning g' \<le> 1)"
proof -
  have a: "- 1 \<le> pan_at rnd cosf c \<and> pan_at rnd cosf c \<le> 1" for c
    using assms by (rule pan_at_range)
  moreover have "panning g' = pan_at rnd cosf (count g') \<and> - 1 \<le> panning g' \<and> panning g' \<le> 1"
    if "0 < k" "ticks lib rnd cosf k g = Inr g'" for k g'
    using ticks_Inr [OF that(2,1)] a [of "count g'"] by simp
  ultimately show ?thesis
    by blast
qed

theorem panning_within_bounds_witness:
  "\<exists>g'. ticks demo_library id cos 3 NewGame = Inr g' \<and> count g' = 3 \<and>
     - 1 \<le> panning g' \<and> panning g' \<le> 1 \<and>
     - 1 \<le> pan_at id cos 3 \<and> pan_at id cos 3 \<le> 1"
proof -
  have c: "\<forall>x :: real. - 1 \<le> cos x \<and> cos x \<le> 1"
    by simp
  have "playerLeft (NewGame :: nat Game) = None"
    by (simp add: NewGame_def)
  from Update_first [OF demo_library_ok this, of id cos]
  obtain g1 where u: "Update demo_library id cos NewGame = Inr g1"
    and p: "playerLeft g1 \<noteq> None" "playerRight g1 \<noteq> None"
    by blast
  from ticks_ready [OF p, of demo_library id cos 2]
  obtain g' where "ticks demo_library id cos 2 g1 = Inr g'"
    by blast
  with u have "ticks demo_library id cos (Suc 2) NewGame = Inr g'"
    by (simp only: ticks.simps sum.case)
  moreover have "Suc 2 = 3"
    by simp
  ultimately have t: "ticks demo_library id cos 3 NewGame = Inr g'"
    by (simp only:)
  from ticks_Inr [OF t] have "count g' = 3"
    by (simp add: NewGame_def)
  moreover from panning_within_bounds [OF float64_rounding_id c, of demo_library NewGame]
  have a: "- 1 \<le> pan_at id cos 3 \<and> pan_at id cos 3 \<le> 1"
    and b: "\<And>k g'. 0 < k \<Longrightarrow> ticks demo_library id cos k NewGame = Inr g' \<Longrightarrow>
            - 1 \<le> panning g' \<and> panning g' \<le> 1"
    by blast+
  moreover from b [OF _ t] have "- 1 \<le> panning g' \<and> panning g' \<le> 1"
    by simp
  ultimately show ?thesis
    using t by blast
qed

text \<open>
  C4, as the code has it. With the tick counter at 0 the phase is 0 and the cosine
  is 1, which puts the horizontal position at 640, the right edge of the screen, and
  the pan position at exactly 1, the rightmost: not at 0 and -1. An update that
  advances the counter to 0 stores these two values. (\<^verbatim>\<open>math.Cos(0)\<close> is 1.)
\<close>

theorem pan_at_tick_zero:
  assumes "float64_rounding rnd" and "cosf 0 = 1"
  shows "phase rnd 0 = 0 \<and> cosf (phase rnd 0) = 1 \<and>
         xpos_of rnd cosf (phase rnd 0) = 640 \<and> pan_at rnd cosf 0 = 1 \<and>
         (\<forall>g g'. count g + 1 = 0 \<and> Update lib rnd cosf g = Inr g' \<longrightarrow>
            xpos g' = 640 \<and> panning g' = 1)"
proof -
  note z = pan_at_zero [of rnd cosf, OF assms]
  have "xpos g' = 640 \<and> panning g' = 1"
    if "count g + 1 = 0" "Update lib rnd cosf g = Inr g'" for g g'
  proof -
    from Update_Inr [OF that(2)] that(1)
    have "count g' = 0" "xpos g' = xpos_of rnd cosf (phase rnd (count g'))"
      "panning g' = pan_at rnd cosf (count g')"
      by simp_all
    with z show ?thesis
      by metis
  qed
  with z show ?thesis
    by blast
qed

theorem pan_at_tick_zero_witness:
  "float64_rounding id \<and> cos (0 :: real) = 1 \<and> phase id 0 = 0 \<and>
   xpos_of id cos (phase id 0) = 640 \<and> pan_at id cos 0 = 1"
  using pan_at_tick_zero [of id cos demo_library, OF float64_rounding_id cos_zero]
    float64_rounding_id cos_zero
  by blast

theorem pan_at_tick_zero_not_leftmost:
  "pan_at id cos 0 \<noteq> - 1 \<and> xpos_of id cos (phase id 0) \<noteq> 0"
proof -
  from pan_at_zero [of id cos, OF float64_rounding_id cos_zero]
  have "pan_at id cos 0 = 1" "xpos_of id cos (phase id 0) = 640"
    by blast+
  then show ?thesis
    by simp
qed

text \<open>
  C8. The initialization step does nothing on a game whose left handle exists: the
  state it returns is the state it was given. On a game without it (and the library
  calls succeeding) it makes exactly two handles, both present afterwards, and a
  second call changes nothing. A fresh game has no handle; after any positive number
  of updates both handles exist and two handles have been made in all.
\<close>

theorem initAudio_lazy_idempotent:
  assumes "DecodeF32 lib = Inr src" and "\<forall>c. NewPlayerF32_err lib c = None"
  shows "(playerLeft g \<noteq> None \<longrightarrow> initAudioIfNeeded lib g = Inr g) \<and>
         (playerLeft g = None \<longrightarrow>
            (\<exists>g'. initAudioIfNeeded lib g = Inr g' \<and>
               playerLeft g' \<noteq> None \<and> playerRight g' \<noteq> None \<and>
               handles_made g' = handles_made g + 2 \<and>
               initAudioIfNeeded lib g' = Inr g')) \<and>
         playerLeft (NewGame :: 'a Game) = None \<and> handles_made (NewGame :: 'a Game) = 0 \<and>
         (\<forall>k. 0 < k \<longrightarrow>
            (\<exists>g'. ticks lib rnd cosf k (NewGame :: 'a Game) = Inr g' \<and>
               playerLeft g' \<noteq> None \<and> playerRight g' \<noteq> None \<and>
               handles_made g' = 2 \<and>
               initAudioIfNeeded lib g' = Inr g'))"
proof -
  have a: "initAudioIfNeeded lib g = Inr g" if "playerLeft g \<noteq> None"
    using that by (rule initAudioIfNeeded_ready)
  have b: "\<exists>g'. initAudioIfNeeded lib g = Inr g' \<and>
               playerLeft g' \<noteq> None \<and> playerRight g' \<noteq> None \<and>
               handles_made g' = handles_made g + 2 \<and>
               initAudioIfNeeded lib g' = Inr g'" if "playerLeft g = None"
    using initAudioIfNeeded_first [OF assms that] initAudioIfNeeded_ready by fastforce
  have c: "playerLeft (NewGame :: 'a Game) = None \<and> handles_made (NewGame :: 'a Game) = 0"
    by (simp add: NewGame_def handles_made_def)
  have d: "\<exists>g'. ticks lib rnd cosf k (NewGame :: 'a Game) = Inr g' \<and>
               playerLeft g' \<noteq> None \<and> playerRight g' \<noteq> None \<and>
               handles_made g' = 2 \<and>
               initAudioIfNeeded lib g' = Inr g'" if "0 < k" for k
  proof -
    from that obtain j where k: "k = Suc j"
      by (cases k) auto
    from Update_first [OF assms, of NewGame rnd cosf] c
    obtain g1 where u: "Update lib rnd cosf (NewGame :: 'a Game) = Inr g1"
      and p: "playerLeft g1 \<noteq> None" "playerRight g1 \<noteq> None"
      and h: "handles_made g1 = 2"
      by auto
    from ticks_ready [OF p, of lib rnd cosf j]
    obtain g' where t: "ticks lib rnd cosf j g1 = Inr g'"
      and q: "playerLeft g' \<noteq> None" "playerRight g' \<noteq> None"
      and e: "audioContext g' = audioContext g1"
      by blast
    from e h have "handles_made g' = 2"
      by (simp add: handles_made_def)
    with t q u k initAudioIfNeeded_ready [OF q(1), of lib] show ?thesis
      by simp
  qed
  from a b c d show ?thesis
    by blast
qed

theorem initAudio_lazy_idempotent_witness:
  "\<exists>g'. ticks demo_library id cos 3 NewGame = Inr g' \<and>
     playerLeft g' \<noteq> None \<and> playerRight g' \<noteq> None \<and> handles_made g' = 2 \<and>
     initAudioIfNeeded demo_library g' = Inr g'"
  using initAudio_lazy_idempotent [OF demo_library_ok, of NewGame id cos] by simp

subsection \<open>The period of the oscillation\<close>

text \<open>
  With exact arithmetic in place of \<^verbatim>\<open>float64\<close> (no rounding, the real cosine), 600
  ticks advance the phase by a full turn, and the pan position repeats exactly, as
  long as the counter does not wrap.
\<close>

lemma sint_add_600:
  assumes "sint (c :: 64 word) + 600 < 9223372036854775808"
  shows "sint (c + 600) = sint c + 600"
proof -
  have "sint (c + 600) = signed_take_bit (LENGTH(64) - 1) (sint c + sint (600 :: 64 word))"
    by (rule sint_word_ariths)
  also have "sint (600 :: 64 word) = 600"
    by simp
  also have "signed_take_bit (LENGTH(64) - 1) (sint c + 600) = sint c + 600"
    using assms sint_ge [of c] by (intro signed_take_bit_int_eq_self) simp_all
  finally show ?thesis .
qed

lemma phase_exact: "phase id c = of_int (sint c) * (pi / 300)"
  by (simp add: phase_def)

lemma pan_period_exact:
  assumes "sint (c :: 64 word) + 600 < 9223372036854775808"
  shows "pan_at id cos (c + 600) = pan_at id cos c"
proof -
  have "phase id (c + 600) = phase id c + 2 * pi"
    by (simp add: phase_exact sint_add_600 [OF assms] algebra_simps)
  then show ?thesis
    by (simp add: pan_at_def xpos_of_def)
qed

text \<open>
  Under \<^verbatim>\<open>float64\<close> every operation adds a rounding error. The phase is off the exact
  \<open>c * pi / 300\<close> by at most \<open>4 * (|c| + 1) / 2^53\<close>, and the pan position is off the
  cosine of an angle by at most the distance of the phase from that angle, the error
  of \<^verbatim>\<open>math.Cos\<close> and \<open>7 / 2^53\<close>.
\<close>

lemma rnd_err:
  assumes "float64_accurate rnd" and "1 \<le> M" and "M \<le> 1152921504606846976" and "\<bar>x\<bar> \<le> M"
  shows "\<bar>rnd x - x\<bar> \<le> M / 9007199254740992"
proof -
  have "\<bar>rnd x - x\<bar> \<le> max 1 \<bar>x\<bar> / 9007199254740992"
    using assms by (simp add: float64_accurate_def)
  also have "\<dots> \<le> M / 9007199254740992"
    using assms(2,4) by (intro divide_right_mono) auto
  finally show ?thesis .
qed

lemma abs_mult_le:
  fixes x y :: real
  assumes "\<bar>x\<bar> \<le> A" and "\<bar>y\<bar> \<le> B"
  shows "\<bar>x * y\<bar> \<le> A * B"
proof -
  have "\<bar>x\<bar> * \<bar>y\<bar> \<le> A * B"
    using assms by (intro mult_mono) auto
  then show ?thesis
    by (simp add: abs_mult)
qed

lemma cos_lipschitz: "\<bar>cos x - cos y\<bar> \<le> \<bar>x - y\<bar>" for x y :: real
proof -
  have "\<bar>cos x - cos y\<bar> = 2 * (\<bar>sin ((x + y) / 2)\<bar> * \<bar>sin ((y - x) / 2)\<bar>)"
    by (simp add: cos_diff_cos abs_mult)
  also have "\<bar>sin ((x + y) / 2)\<bar> * \<bar>sin ((y - x) / 2)\<bar> \<le> 1 * \<bar>(y - x) / 2\<bar>"
    by (intro mult_mono abs_sin_x_le_abs_x) auto
  finally show ?thesis
    by simp
qed


lemma phase_error:
  assumes fr: "float64_rounding rnd" and fa: "float64_accurate rnd"
    and c: "\<bar>sint c\<bar> \<le> 2251799813685248"
  shows "\<bar>phase rnd c - of_int (sint c) * (pi / 300)\<bar>
           \<le> 4 * (\<bar>of_int (sint c)\<bar> + 1) / 9007199254740992"
proof -
  define fc :: real where "fc = of_int (sint c)"
  define n where "n = \<bar>fc\<bar>"
  define C0 :: real where "C0 = (1 / 60) * 2 * pi"
  define C where "C = rnd C0"
  define D0 :: real where "D0 = 1 / 10"
  define D where "D = rnd D0"
  define p1 where "p1 = fc * C"
  define a where "a = rnd p1"
  define p2 where "p2 = a * D"
  define r where "r = rnd p2"
  define e where "e = (n + 1) / 9007199254740992"
  have "real_of_int \<bar>sint c\<bar> \<le> real_of_int 2251799813685248"
    using c by (simp only: of_int_le_iff)
  then have n: "0 \<le> n" "n \<le> 2251799813685248"
    by (simp_all add: n_def fc_def)
  have e: "0 \<le> e" "e \<le> 1" "1 / 9007199254740992 \<le> e" "n / 9007199254740992 \<le> e"
    using n by (simp_all add: e_def divide_right_mono)
  have "rnd (of_int (sint c)) = of_int (sint c)"
    using c by (intro rnd_int [OF fr]) simp
  then have ph: "phase rnd c = r"
    by (simp add: phase_def r_def p2_def a_def p1_def C_def D_def C0_def D0_def fc_def)
  have C0: "0 \<le> C0" "C0 \<le> 1 / 2"
    using pi_less_4 pi_ge_two by (simp_all add: C0_def)
  have eC: "\<bar>C - C0\<bar> \<le> 1 / 9007199254740992"
    unfolding C_def using C0 by (intro rnd_err [OF fa]) auto
  with C0 have bC: "\<bar>C\<bar> \<le> 1"
    by linarith
  have eD: "\<bar>D - D0\<bar> \<le> 1 / 9007199254740992"
    unfolding D_def by (intro rnd_err [OF fa]) (auto simp: D0_def)
  then have bD: "\<bar>D\<bar> \<le> 1"
    unfolding D0_def by linarith
  have "\<bar>p1\<bar> \<le> n * 1"
    unfolding p1_def by (intro abs_mult_le bC) (simp add: n_def)
  then have bp1: "\<bar>p1\<bar> \<le> n + 1"
    by simp
  have ea: "\<bar>a - p1\<bar> \<le> e"
    unfolding a_def e_def using n bp1 by (intro rnd_err [OF fa]) auto
  with bp1 e \<open>\<bar>p1\<bar> \<le> n * 1\<close> have ba: "\<bar>a\<bar> \<le> n + 1"
    by linarith
  have "\<bar>p2\<bar> \<le> (n + 1) * 1"
    unfolding p2_def by (intro abs_mult_le ba bD)
  then have bp2: "\<bar>p2\<bar> \<le> n + 1"
    by simp
  have er: "\<bar>r - p2\<bar> \<le> e"
    unfolding r_def e_def using n bp2 by (intro rnd_err [OF fa]) auto
  have "\<bar>(a - p1) * D\<bar> \<le> e * 1"
    by (intro abs_mult_le ea bD)
  then have t1: "\<bar>(a - p1) * D\<bar> \<le> e"
    by simp
  have "\<bar>fc * (C - C0)\<bar> \<le> n * (1 / 9007199254740992)"
    by (intro abs_mult_le eC) (simp add: n_def)
  with e have "\<bar>fc * (C - C0)\<bar> \<le> e"
    by simp
  then have "\<bar>fc * (C - C0) * D\<bar> \<le> e * 1"
    using bD by (rule abs_mult_le)
  then have t2: "\<bar>fc * (C - C0) * D\<bar> \<le> e"
    by simp
  have "\<bar>fc * C0\<bar> \<le> n * 1"
    using C0 by (intro abs_mult_le) (simp_all add: n_def)
  then have "\<bar>fc * C0 * (D - D0)\<bar> \<le> (n * 1) * (1 / 9007199254740992)"
    using eD by (rule abs_mult_le)
  with e have t3: "\<bar>fc * C0 * (D - D0)\<bar> \<le> e"
    by simp
  have "r - fc * C0 * D0 = (r - p2) + (a - p1) * D + fc * (C - C0) * D + fc * C0 * (D - D0)"
    by (simp add: p2_def p1_def algebra_simps)
  with er t1 t2 t3 have "\<bar>r - fc * C0 * D0\<bar> \<le> 4 * e"
    by linarith
  moreover have "fc * C0 * D0 = fc * (pi / 300)"
    by (simp add: C0_def D0_def)
  moreover have "4 * e = 4 * (n + 1) / 9007199254740992"
    by (simp add: e_def)
  ultimately have "\<bar>r - fc * (pi / 300)\<bar> \<le> 4 * (n + 1) / 9007199254740992"
    by (simp only:)
  then show ?thesis
    unfolding ph n_def fc_def .
qed

lemma pan_error:
  assumes fr: "float64_rounding rnd" and fa: "float64_accurate rnd"
    and k: "- 1 \<le> cosf r" "cosf r \<le> 1" "\<bar>cosf r - cos r\<bar> \<le> v"
  shows "\<bar>panning_of rnd (xpos_of rnd cosf r) - cos \<rho>\<bar>
           \<le> \<bar>r - \<rho>\<bar> + v + 7 / 9007199254740992"
proof -
  define m where "m = rnd (cosf r * 320)"
  define x where "x = rnd (320 + m)"
  define t where "t = rnd (x / 640)"
  define u1 where "u1 = rnd (1 - t)"
  define pan where "pan = rnd (t - u1)"
  define d where "d = \<bar>r - \<rho>\<bar>"
  have idem: "rnd (rnd y) = rnd y" and odd: "rnd (- y) = - rnd y" for y
    using fr by (simp_all add: float64_rounding_def)
  have "rnd (- 320) \<le> m" "m \<le> rnd 320"
    unfolding m_def using k by (auto intro!: rnd_mono [OF fr])
  then have m: "- 320 \<le> m" "m \<le> 320"
    by (simp_all add: rnd_small [OF fr])
  have "rnd 0 \<le> x" "x \<le> rnd 640"
    unfolding x_def using m by (auto intro!: rnd_mono [OF fr])
  then have x: "0 \<le> x" "x \<le> 640"
    by (simp_all add: rnd_small [OF fr])
  have "rnd 0 \<le> t" "t \<le> rnd 1"
    unfolding t_def using x by (auto intro!: rnd_mono [OF fr])
  then have t: "0 \<le> t" "t \<le> 1"
    by (simp_all add: rnd_small [OF fr])
  have "rnd 0 \<le> u1" "u1 \<le> rnd 1"
    unfolding u1_def using t by (auto intro!: rnd_mono [OF fr])
  then have u1: "0 \<le> u1" "u1 \<le> 1"
    by (simp_all add: rnd_small [OF fr])
  have "rnd (- 1 * u1) = - u1" "rnd (1 * t) = t"
    by (simp_all add: odd idem u1_def t_def)
  then have p: "panning_of rnd (xpos_of rnd cosf r) = pan"
    by (simp add: panning_of_def lerp_def xpos_of_def screenWidth_def pan_def u1_def t_def
        x_def m_def)
  have "\<bar>m - cosf r * 320\<bar> \<le> 320 / 9007199254740992"
    unfolding m_def using k by (intro rnd_err [OF fa]) auto
  then have em: "- (320 / 9007199254740992) \<le> m - cosf r * 320"
      "m - cosf r * 320 \<le> 320 / 9007199254740992"
    by linarith+
  have "\<bar>x - (320 + m)\<bar> \<le> 640 / 9007199254740992"
    unfolding x_def using m by (intro rnd_err [OF fa]) auto
  then have ex: "- (640 / 9007199254740992) \<le> x - (320 + m)"
      "x - (320 + m) \<le> 640 / 9007199254740992"
    by linarith+
  have "\<bar>t - x / 640\<bar> \<le> 1 / 9007199254740992"
    unfolding t_def using x by (intro rnd_err [OF fa]) auto
  then have et: "- (1 / 9007199254740992) \<le> t - x / 640" "t - x / 640 \<le> 1 / 9007199254740992"
    by linarith+
  have "\<bar>u1 - (1 - t)\<bar> \<le> 1 / 9007199254740992"
    unfolding u1_def using t by (intro rnd_err [OF fa]) auto
  then have eu: "- (1 / 9007199254740992) \<le> u1 - (1 - t)" "u1 - (1 - t) \<le> 1 / 9007199254740992"
    by linarith+
  have "\<bar>pan - (t - u1)\<bar> \<le> 1 / 9007199254740992"
    unfolding pan_def using t u1 by (intro rnd_err [OF fa]) auto
  then have ep: "- (1 / 9007199254740992) \<le> pan - (t - u1)"
      "pan - (t - u1) \<le> 1 / 9007199254740992"
    by linarith+
  have "\<bar>cos r - cos \<rho>\<bar> \<le> d"
    unfolding d_def by (rule cos_lipschitz)
  with k(3) have ek: "- (v + d) \<le> cosf r - cos \<rho>" "cosf r - cos \<rho> \<le> v + d"
    by linarith+
  from em ex et eu ep ek have "\<bar>pan - cos \<rho>\<bar> \<le> d + v + 7 / 9007199254740992"
    by linarith
  then show ?thesis
    by (simp add: p d_def)
qed


lemma float64_accurate_id: "float64_accurate id"
  by (auto simp: float64_accurate_def max_def)

text \<open>
  C6. The pan position is periodic in the tick counter with a period of 600 ticks, up
  to the rounding of \<^verbatim>\<open>float64\<close>: for a counter \<open>c\<close> of magnitude up to \<open>2^50\<close>, the pan
  positions computed at \<open>c\<close> and at \<open>c + 600\<close> differ by at most
  \<open>(|c| + 303) / 2^50 + 2 * v\<close>, where \<open>v\<close> bounds the error of \<^verbatim>\<open>math.Cos\<close>. For
  counters up to \<open>2^32\<close> (more than two years at 60 ticks a second) and \<open>v\<close> up to
  \<open>2^-40\<close> the difference is below \<open>10^-5\<close>.
\<close>

theorem pan_nearly_periodic:
  assumes fr: "float64_rounding rnd" and fa: "float64_accurate rnd"
    and ch: "\<forall>x. - 1 \<le> cosf x \<and> cosf x \<le> 1 \<and> \<bar>cosf x - cos x\<bar> \<le> v"
    and c: "\<bar>sint c\<bar> \<le> 1125899906842624"
  shows "\<bar>pan_at rnd cosf (c + 600) - pan_at rnd cosf c\<bar>
           \<le> (\<bar>of_int (sint c)\<bar> + 303) / 1125899906842624 + 2 * v \<and>
         (\<bar>sint c\<bar> \<le> 4294967296 \<and> v \<le> 1 / 1099511627776 \<longrightarrow>
            \<bar>pan_at rnd cosf (c + 600) - pan_at rnd cosf c\<bar> \<le> 1 / 100000)"
proof -
  define n where "n = \<bar>real_of_int (sint c)\<bar>"
  define \<rho> where "\<rho> = real_of_int (sint c) * (pi / 300)"
  define d where "d = \<bar>pan_at rnd cosf (c + 600) - pan_at rnd cosf c\<bar>"
  have s: "sint (c + 600) = sint c + 600"
    using c by (intro sint_add_600) linarith
  have c0: "\<bar>sint c\<bar> \<le> 2251799813685248" and c1: "\<bar>sint (c + 600)\<bar> \<le> 2251799813685248"
    using c unfolding s by linarith+
  have "real_of_int (sint (c + 600)) = real_of_int (sint c) + 600"
    by (simp only: s of_int_add of_int_numeral)
  then have r1: "real_of_int (sint (c + 600)) * (pi / 300) = \<rho> + 2 * pi"
    and n1: "\<bar>real_of_int (sint (c + 600))\<bar> \<le> n + 600"
    by (simp_all add: \<rho>_def n_def algebra_simps)
  from phase_error [OF fr fa c0]
  have e0: "\<bar>phase rnd c - \<rho>\<bar> \<le> 4 * (n + 1) / 9007199254740992"
    unfolding \<rho>_def n_def .
  define n' where "n' = \<bar>real_of_int (sint (c + 600))\<bar>"
  from phase_error [OF fr fa c1]
  have "\<bar>phase rnd (c + 600) - (\<rho> + 2 * pi)\<bar> \<le> 4 * (n' + 1) / 9007199254740992"
    unfolding r1 n'_def .
  moreover from n1 have "n' \<le> n + 600"
    unfolding n'_def .
  then have "4 * (n' + 1) / 9007199254740992 \<le> 4 * (n + 601) / 9007199254740992"
    by (intro divide_right_mono) simp_all
  ultimately
  have e1: "\<bar>phase rnd (c + 600) - (\<rho> + 2 * pi)\<bar> \<le> 4 * (n + 601) / 9007199254740992"
    by (rule order_trans)
  from ch have k: "- 1 \<le> cosf x" "cosf x \<le> 1" "\<bar>cosf x - cos x\<bar> \<le> v" for x
    by blast+
  from pan_error [where r = "phase rnd c" and \<rho> = \<rho> and cosf = cosf, OF fr fa k]
  have p0: "\<bar>pan_at rnd cosf c - cos \<rho>\<bar> \<le> \<bar>phase rnd c - \<rho>\<bar> + v + 7 / 9007199254740992"
    by (simp only: pan_at_def)
  from pan_error [where r = "phase rnd (c + 600)" and \<rho> = "\<rho> + 2 * pi" and cosf = cosf,
      OF fr fa k]
  have p1: "\<bar>pan_at rnd cosf (c + 600) - cos \<rho>\<bar>
              \<le> \<bar>phase rnd (c + 600) - (\<rho> + 2 * pi)\<bar> + v + 7 / 9007199254740992"
    by (simp only: pan_at_def cos_periodic)
  define A0 where "A0 = 4 * (n + 1) / 9007199254740992 + v + 7 / 9007199254740992"
  define A1 where "A1 = 4 * (n + 601) / 9007199254740992 + v + 7 / 9007199254740992"
  from e0 p0 have a0: "\<bar>pan_at rnd cosf c - cos \<rho>\<bar> \<le> A0"
    unfolding A0_def by linarith
  from e1 p1 have a1: "\<bar>pan_at rnd cosf (c + 600) - cos \<rho>\<bar> \<le> A1"
    unfolding A1_def by linarith
  from a0 a1 have "d \<le> A0 + A1"
    unfolding d_def by linarith
  moreover have "A0 + A1 \<le> (n + 303) / 1125899906842624 + 2 * v"
    unfolding A0_def A1_def by (simp add: field_simps)
  ultimately have b: "d \<le> (n + 303) / 1125899906842624 + 2 * v"
    by (rule order_trans)
  have "d \<le> 1 / 100000" if "\<bar>sint c\<bar> \<le> 4294967296" "v \<le> 1 / 1099511627776"
  proof -
    have "real_of_int \<bar>sint c\<bar> \<le> real_of_int 4294967296"
      using that(1) by (simp only: of_int_le_iff)
    then have "n \<le> 4294967296"
      by (simp add: n_def)
    then have "(n + 303) / 1125899906842624 \<le> (4294967296 + 303) / 1125899906842624"
      by (intro divide_right_mono) simp_all
    also have "\<dots> \<le> 1 / 200000"
      by simp
    finally have "(n + 303) / 1125899906842624 + 2 * v \<le> 1 / 200000 + 2 * (1 / 1099511627776)"
      using that(2) by (intro add_mono) simp_all
    also have "\<dots> \<le> 1 / 100000"
      by simp
    finally show ?thesis
      using b by (rule order_trans [rotated])
  qed
  with b show ?thesis
    unfolding d_def n_def by blast
qed

theorem pan_nearly_periodic_witness:
  "\<bar>pan_at id cos (7 + 600) - pan_at id cos 7\<bar> \<le> 310 / 1125899906842624 \<and>
   \<bar>pan_at id cos (7 + 600) - pan_at id cos 7\<bar> \<le> 1 / 100000"
proof -
  have ch: "\<forall>x :: real. - 1 \<le> cos x \<and> cos x \<le> 1 \<and> \<bar>cos x - cos x\<bar> \<le> 0"
    by simp
  have c: "\<bar>sint (7 :: 64 word)\<bar> \<le> 1125899906842624" "\<bar>sint (7 :: 64 word)\<bar> \<le> 4294967296"
    by simp_all
  from pan_nearly_periodic [OF float64_rounding_id float64_accurate_id ch c(1)] c(2)
  show ?thesis
    by simp
qed

end
